theory Spec2Isabelle
  imports Main "HOL-Library.Multiset"
begin

section \<open>Card model (src/backend/main.py, lines 11-33)\<close>

text \<open>
  A card is the dictionary \<open>{"suit": s, "rank": r}\<close>; the suit and rank literals of the
  source (\<open>Suit\<close>, \<open>Rank\<close>) are the constructors below. \<open>R10\<close>, \<open>R9\<close>, \<open>R8\<close>, \<open>R7\<close>
  stand for the rank strings "10", "9", "8", "7".
\<close>

datatype suit = H | D | C | S

datatype rank = A | R10 | K | Q | J | R9 | R8 | R7

datatype card = Card (suit: suit) (rank: rank)

datatype By = Player | Opponent

datatype AnnounceType = ANone | Mariage | Tierce | Quarteron | Quinte | Chouine

definition RANKS :: "rank list" where
  "RANKS = [A, R10, K, Q, J, R9, R8, R7]"

definition SUITS :: "suit list" where
  "SUITS = [H, D, C, S]"

text \<open>\<open>RANK_STRENGTH = {r: i for i, r in enumerate(RANKS)}\<close>: smaller is stronger.\<close>

fun RANK_STRENGTH :: "rank \<Rightarrow> nat" where
  "RANK_STRENGTH A = 0"
| "RANK_STRENGTH R10 = 1"
| "RANK_STRENGTH K = 2"
| "RANK_STRENGTH Q = 3"
| "RANK_STRENGTH J = 4"
| "RANK_STRENGTH R9 = 5"
| "RANK_STRENGTH R8 = 6"
| "RANK_STRENGTH R7 = 7"

fun CARD_POINTS :: "rank \<Rightarrow> int" where
  "CARD_POINTS A = 11"
| "CARD_POINTS R10 = 10"
| "CARD_POINTS K = 4"
| "CARD_POINTS Q = 3"
| "CARD_POINTS J = 2"
| "CARD_POINTS R9 = 0"
| "CARD_POINTS R8 = 0"
| "CARD_POINTS R7 = 0"

text \<open>\<open>ANNOUNCE_POINTS\<close>: (non-trump, trump) points; no entry for "none" and "chouine".\<close>

definition ANNOUNCE_POINTS :: "AnnounceType \<rightharpoonup> int \<times> int" where
  "ANNOUNCE_POINTS =
     [Mariage \<mapsto> (20, 40), Tierce \<mapsto> (30, 60), Quarteron \<mapsto> (40, 80), Quinte \<mapsto> (50, 50)]"

definition new_deck :: "card list" where
  "new_deck = concat (map (\<lambda>s. map (\<lambda>r. Card s r) RANKS) SUITS)"

definition card_eq :: "card \<Rightarrow> card \<Rightarrow> bool" where
  "card_eq a b \<longleftrightarrow> suit a = suit b \<and> rank a = rank b"

datatype error =
    GameOver | TrickAlreadyStarted | NotLeader | AuSeptRequired
  | AnnounceNotShown | InvalidAnnounce | AnnounceAlreadyMade
  | CardNotInHand | NoLead | LeaderCannotFollow | IllegalMove
  | ExchangeAlreadyDone | TalonEmpty | NoSevenOfTrump

text \<open>
  \<open>remove_card\<close> pops the first card equal to the given card \<open>cd\<close> and raises "Card not in hand"
  when the loop finds none; the hand is untouched when it raises.
\<close>

fun remove_card :: "card list \<Rightarrow> card \<Rightarrow> error + card list" where
  "remove_card [] cd = Inl CardNotInHand"
| "remove_card (c # hand) cd =
     (if card_eq c cd then Inr hand
      else (case remove_card hand cd of
              Inl e \<Rightarrow> Inl e
            | Inr hand' \<Rightarrow> Inr (c # hand')))"

section \<open>Rule engine (src/backend/main.py, lines 57-174)\<close>

definition has_suit :: "card list \<Rightarrow> suit \<Rightarrow> bool" where
  "has_suit hand s \<longleftrightarrow> list_ex (\<lambda>c. suit c = s) hand"

definition trumps :: "card list \<Rightarrow> suit \<Rightarrow> card list" where
  "trumps hand trump_suit = filter (\<lambda>c. suit c = trump_suit) hand"

definition overtrumps :: "card list \<Rightarrow> suit \<Rightarrow> card \<Rightarrow> card list" where
  "overtrumps hand trump_suit target_trump =
     filter (\<lambda>c. suit c = trump_suit \<and> RANK_STRENGTH (rank c) < RANK_STRENGTH (rank target_trump))
       hand"

text \<open>\<open>trick_winner\<close> returns 0 if the leader wins, 1 if the follower wins.\<close>

definition trick_winner :: "card \<Rightarrow> card \<Rightarrow> suit \<Rightarrow> bool \<Rightarrow> nat" where
  "trick_winner lead reply trump_suit talon_is_not_empty =
     (let lead_is_trump = (suit lead = trump_suit);
          reply_is_trump = (suit reply = trump_suit)
      in if reply_is_trump \<and> \<not> lead_is_trump then 1
         else if lead_is_trump \<and> \<not> reply_is_trump then 0
         else if suit reply = suit lead then
           (if RANK_STRENGTH (rank lead) < RANK_STRENGTH (rank reply) then 0 else 1)
         else if talon_is_not_empty then 0
         else 0)"

text \<open>
  The return statement of \<open>trick_winner\<close> that a call leaves through, in source order:
  the cut (line 85), the trump lead (line 87), the same-suit comparison (line 91), the
  different-suits return while the talon has cards (line 95) and the final different-suits
  return (line 96, commented "illegal should be prevented").
\<close>

datatype branch = Cut | LeadTrump | SameSuit | NoObligation | Fallback

definition trick_winner_branch :: "card \<Rightarrow> card \<Rightarrow> suit \<Rightarrow> bool \<Rightarrow> branch" where
  "trick_winner_branch lead reply trump_suit talon_is_not_empty =
     (let lead_is_trump = (suit lead = trump_suit);
          reply_is_trump = (suit reply = trump_suit)
      in if reply_is_trump \<and> \<not> lead_is_trump then Cut
         else if lead_is_trump \<and> \<not> reply_is_trump then LeadTrump
         else if suit reply = suit lead then SameSuit
         else if talon_is_not_empty then NoObligation
         else Fallback)"

text \<open>\<open>lead_card\<close> is \<open>None\<close> when there is no lead (\<open>not lead_card\<close>).\<close>

definition compute_legal_moves :: "card list \<Rightarrow> card option \<Rightarrow> suit \<Rightarrow> bool \<Rightarrow> card list" where
  "compute_legal_moves hand lead_card trump_suit talon_is_not_empty =
     (case lead_card of
        None \<Rightarrow> hand
      | Some lc \<Rightarrow>
          if talon_is_not_empty then hand
          else
            let lead_suit = suit lc in
            if has_suit hand lead_suit then filter (\<lambda>c. suit c = lead_suit) hand
            else
              let t = trumps hand trump_suit in
              if t \<noteq> [] then
                (if lead_suit = trump_suit then
                   (let ot = overtrumps hand trump_suit lc in if ot \<noteq> [] then ot else t)
                 else t)
              else hand)"

text \<open>
  The sibling rule engine of src/backend/game_state.py (lines 145-182): \<open>legal_moves\<close>
  with its helpers.
\<close>

definition has_trump :: "card list \<Rightarrow> suit \<Rightarrow> bool" where
  "has_trump hand trump_suit = has_suit hand trump_suit"

text \<open>
  \<open>can_overtrump\<close> compares the strongest trump of the hand (\<open>strongest_of_suit\<close>: the
  first of the trumps sorted by strength; the empty case cannot occur after the test on
  \<open>trumps\<close>) with the current trump.
\<close>

definition can_overtrump :: "card list \<Rightarrow> suit \<Rightarrow> card \<Rightarrow> bool" where
  "can_overtrump hand trump_suit current_trump =
     (let ts = filter (\<lambda>c. suit c = trump_suit) hand in
      if ts = [] then False
      else (case sort_key (\<lambda>c. RANK_STRENGTH (rank c)) (filter (\<lambda>c. suit c = trump_suit) ts) of
              [] \<Rightarrow> False
            | best # _ \<Rightarrow> RANK_STRENGTH (rank best) < RANK_STRENGTH (rank current_trump)))"

definition legal_moves :: "card list \<Rightarrow> card option \<Rightarrow> suit \<Rightarrow> bool \<Rightarrow> card list" where
  "legal_moves hand lead_card trump_suit talon_not_empty =
     (if talon_not_empty \<or> lead_card = None then hand
      else
        (case lead_card of
           None \<Rightarrow> hand
         | Some lc \<Rightarrow>
             let lead_suit = suit lc in
             if has_suit hand lead_suit then filter (\<lambda>c. suit c = lead_suit) hand
             else if has_trump hand trump_suit then
               (let ts = filter (\<lambda>c. suit c = trump_suit) hand in
                if lead_suit = trump_suit \<and> can_overtrump hand trump_suit lc then
                  filter (\<lambda>c. RANK_STRENGTH (rank c) < RANK_STRENGTH (rank lc)) ts
                else ts)
             else hand))"

definition is_brisque :: "card \<Rightarrow> bool" where
  "is_brisque c \<longleftrightarrow> rank c = A \<or> rank c = R10"

definition count_brisques :: "card list \<Rightarrow> nat" where
  "count_brisques hand = length (filter is_brisque hand)"

text \<open>\<open>ranks = {c["rank"] for c in hand if c["suit"] == suit}\<close>\<close>

definition ranks_in :: "card list \<Rightarrow> suit \<Rightarrow> rank set" where
  "ranks_in hand s = set (map rank (filter (\<lambda>c. suit c = s) hand))"

definition has_mariage :: "card list \<Rightarrow> suit \<Rightarrow> bool" where
  "has_mariage hand s \<longleftrightarrow> K \<in> ranks_in hand s \<and> Q \<in> ranks_in hand s"

definition has_tierce :: "card list \<Rightarrow> suit \<Rightarrow> bool" where
  "has_tierce hand s \<longleftrightarrow> set [K, Q, J] \<subseteq> ranks_in hand s"

definition has_quarteron :: "card list \<Rightarrow> suit \<Rightarrow> bool" where
  "has_quarteron hand s \<longleftrightarrow> set [A, K, Q, J] \<subseteq> ranks_in hand s"

definition has_chouine :: "card list \<Rightarrow> suit \<Rightarrow> bool" where
  "has_chouine hand s \<longleftrightarrow> set [A, R10, K, Q, J] \<subseteq> ranks_in hand s"

text \<open>
  \<open>announce_points\<close>: "none" and "chouine" return 0 before the table is read, so the
  lookup never misses; the branch for a missing key stands for the KeyError that no
  announce type can raise.
\<close>

definition announce_points :: "AnnounceType \<Rightarrow> suit option \<Rightarrow> suit \<Rightarrow> int" where
  "announce_points ann_type s trump_suit =
     (if ann_type = ANone \<or> ann_type = Chouine then 0
      else (case ANNOUNCE_POINTS ann_type of
              None \<Rightarrow> 0
            | Some base \<Rightarrow> if s = Some trump_suit then snd base else fst base))"

definition validate_announce :: "card list \<Rightarrow> AnnounceType \<Rightarrow> suit option \<Rightarrow> bool" where
  "validate_announce hand ann_type ann_suit =
     (if ann_type = ANone then True
      else if ann_type = Quinte then count_brisques hand \<ge> 5
      else (case ann_suit of
              None \<Rightarrow> False
            | Some s \<Rightarrow>
                if ann_type = Mariage then has_mariage hand s
                else if ann_type = Tierce then has_tierce hand s
                else if ann_type = Quarteron then has_quarteron hand s
                else if ann_type = Chouine then has_chouine hand s
                else False))"

definition is_seven_of_trump :: "card \<Rightarrow> suit \<Rightarrow> bool" where
  "is_seven_of_trump c trump_suit \<longleftrightarrow> suit c = trump_suit \<and> rank c = R7"

fun type_name :: "AnnounceType \<Rightarrow> string" where
  "type_name ANone = ''none''"
| "type_name Mariage = ''mariage''"
| "type_name Tierce = ''tierce''"
| "type_name Quarteron = ''quarteron''"
| "type_name Quinte = ''quinte''"
| "type_name Chouine = ''chouine''"

fun suit_name :: "suit \<Rightarrow> string" where
  "suit_name H = ''H''"
| "suit_name D = ''D''"
| "suit_name C = ''C''"
| "suit_name S = ''S''"

definition announce_key :: "AnnounceType \<Rightarrow> suit option \<Rightarrow> string" where
  "announce_key ann_type s =
     (if ann_type = Quinte then ''quinte''
      else (case s of
              None \<Rightarrow> type_name ann_type @ '':?''
            | Some x \<Rightarrow> type_name ann_type @ '':'' @ suit_name x))"

section \<open>Game state (src/backend/main.py, lines 176-230)\<close>

datatype Winner = WPlayer | WOpponent | WDraw

record TrickRecord =
  lead_by :: By
  lead_card :: card
  reply_by :: By
  reply_card :: card
  trick_won_by :: By
  talon_count :: nat

record AnnounceRecord =
  ann_by :: By
  ann_type :: AnnounceType
  ann_suit :: "suit option"

text \<open>
  The \<open>announce\<close> argument of the engine actions is a dictionary read with
  \<open>(announce or {}).get("type", "none")\<close> and \<open>.get("suit", None)\<close>: each key may be
  absent. An empty or missing dictionary is the record with both fields \<open>None\<close>.
\<close>

record Announce =
  a_type :: "AnnounceType option"
  a_suit :: "suit option"

record Game =
  game_id :: string
  trump_card :: card
  trump_suit :: suit
  talon :: "card list"
  player_hand :: "card list"
  opponent_hand :: "card list"
  leader :: int
  current_lead :: "card option"
  current_lead_by :: "By option"
  turnup_in_stock :: bool
  player_tricks :: "card list list"
  opponent_tricks :: "card list list"
  last_trick_winner :: "By option"
  player_ann_points :: int
  opponent_ann_points :: int
  announced_player :: "string set"
  announced_opponent :: "string set"
  exchange7_done :: bool
  is_over :: bool
  winner :: "Winner option"
  last_trick :: "TrickRecord option"
  last_announce :: "AnnounceRecord option"

text \<open>
  \<open>new_game\<close>: the two random inputs of the source, the identifier \<open>uuid4()\<close> and the
  deck after \<open>random.shuffle\<close>, are parameters. A shuffled deck is a permutation of
  \<open>new_deck\<close>, so it has 32 cards and \<open>deck[10]\<close> is in range.
\<close>

definition shuffled :: "card list \<Rightarrow> bool" where
  "shuffled deck \<longleftrightarrow> mset deck = mset new_deck"

definition new_game :: "string \<Rightarrow> card list \<Rightarrow> Game" where
  "new_game gid deck =
     (let player = take 5 deck;
          opp = take 5 (drop 5 deck);
          trump = deck ! 10;
          tal = drop 11 deck
      in \<lparr> game_id = gid, trump_card = trump, trump_suit = suit trump, talon = tal,
           player_hand = player, opponent_hand = opp, leader = 0,
           current_lead = None, current_lead_by = None, turnup_in_stock = True,
           player_tricks = [], opponent_tricks = [], last_trick_winner = None,
           player_ann_points = 0, opponent_ann_points = 0,
           announced_player = {}, announced_opponent = {},
           exchange7_done = False, is_over = False, winner = None,
           last_trick = None, last_announce = None \<rparr>)"

text \<open>\<open>draw_from_stock\<close>: the drawn card (if any) and the game after the draw.\<close>

definition draw_from_stock :: "Game \<Rightarrow> card option \<times> Game" where
  "draw_from_stock game =
     (case talon game of
        c # rest \<Rightarrow> (Some c, game\<lparr>talon := rest\<rparr>)
      | [] \<Rightarrow>
          if turnup_in_stock game then (Some (trump_card game), game\<lparr>turnup_in_stock := False\<rparr>)
          else (None, game))"

definition talon_not_empty :: "Game \<Rightarrow> bool" where
  "talon_not_empty game \<longleftrightarrow> length (talon game) > 0"

definition au_sept_required :: "Game \<Rightarrow> bool" where
  "au_sept_required game \<longleftrightarrow> length (talon game) = 2 \<and> \<not> exchange7_done game"

section \<open>Scores (src/backend/main.py, lines 232-290)\<close>

definition compute_cards_points :: "card list list \<Rightarrow> int" where
  "compute_cards_points tricks = sum_list (map (\<lambda>c. CARD_POINTS (rank c)) (concat tricks))"

record SideScore =
  sc_cards :: int
  sc_announces :: int
  sc_total :: int

record RunningScores =
  rs_player :: SideScore
  rs_opponent :: SideScore
  dix_de_der_pending :: bool

record FinalSideScore =
  fs_cards :: int
  fs_announces :: int
  fs_dix_de_der :: int
  fs_total :: int

record FinalScores =
  fs_player :: FinalSideScore
  fs_opponent :: FinalSideScore

definition scores_so_far :: "Game \<Rightarrow> RunningScores" where
  "scores_so_far game =
     \<lparr> rs_player =
         \<lparr> sc_cards = compute_cards_points (player_tricks game),
           sc_announces = player_ann_points game,
           sc_total = compute_cards_points (player_tricks game) + player_ann_points game \<rparr>,
       rs_opponent =
         \<lparr> sc_cards = compute_cards_points (opponent_tricks game),
           sc_announces = opponent_ann_points game,
           sc_total = compute_cards_points (opponent_tricks game) + opponent_ann_points game \<rparr>,
       dix_de_der_pending = True \<rparr>"

definition final_scores :: "Game \<Rightarrow> FinalScores" where
  "final_scores game =
     (let p0 = compute_cards_points (player_tricks game) + player_ann_points game;
          o0 = compute_cards_points (opponent_tricks game) + opponent_ann_points game;
          (p1, o1) =
            (if last_trick_winner game = Some Player then (p0 + 10, o0)
             else if last_trick_winner game = Some Opponent then (p0, o0 + 10)
             else (p0, o0))
      in \<lparr> fs_player =
             \<lparr> fs_cards = compute_cards_points (player_tricks game),
               fs_announces = player_ann_points game,
               fs_dix_de_der = (if last_trick_winner game = Some Player then 10 else 0),
               fs_total = p1 \<rparr>,
           fs_opponent =
             \<lparr> fs_cards = compute_cards_points (opponent_tricks game),
               fs_announces = opponent_ann_points game,
               fs_dix_de_der = (if last_trick_winner game = Some Opponent then 10 else 0),
               fs_total = o1 \<rparr> \<rparr>)"

definition maybe_finish_game :: "Game \<Rightarrow> Game" where
  "maybe_finish_game game =
     (if is_over game then game
      else if current_lead game \<noteq> None then game
      else if length (player_hand game) \<noteq> 0 \<or> length (opponent_hand game) \<noteq> 0 then game
      else
        let fs = final_scores game in
        game\<lparr> is_over := True,
              winner :=
                (if fs_total (fs_player fs) > fs_total (fs_opponent fs) then Some WPlayer
                 else if fs_total (fs_opponent fs) > fs_total (fs_player fs) then Some WOpponent
                 else Some WDraw) \<rparr>)"

section \<open>Announces and trick resolution (src/backend/main.py, lines 309-383)\<close>

text \<open>
  \<open>apply_announce\<close> raises only before its first mutation, so a raise is \<open>Inl\<close> of the
  error and leaves the game as it was; \<open>Inr\<close> carries the game after the call.
\<close>

definition winner_of :: "By \<Rightarrow> Winner" where
  "winner_of who = (case who of Player \<Rightarrow> WPlayer | Opponent \<Rightarrow> WOpponent)"

definition apply_announce ::
  "Game \<Rightarrow> By \<Rightarrow> AnnounceType \<Rightarrow> suit option \<Rightarrow> bool \<Rightarrow> card list \<Rightarrow> error + Game" where
  "apply_announce game who atype asuit shown hand_snapshot =
     (if atype = ANone then Inr game
      else if \<not> shown then Inl AnnounceNotShown
      else if \<not> validate_announce hand_snapshot atype asuit then Inl InvalidAnnounce
      else
        let key = announce_key atype asuit;
            announced_set = (if who = Player then announced_player game else announced_opponent game)
        in if key \<in> announced_set then Inl AnnounceAlreadyMade
           else
             let g1 = (if who = Player
                       then game\<lparr>announced_player := insert key (announced_player game)\<rparr>
                       else game\<lparr>announced_opponent := insert key (announced_opponent game)\<rparr>);
                 g2 = g1\<lparr>last_announce :=
                           Some \<lparr>ann_by = who, ann_type = atype, ann_suit = asuit\<rparr>\<rparr>
             in if atype = Chouine then Inr (g2\<lparr>is_over := True, winner := Some (winner_of who)\<rparr>)
                else
                  let pts = announce_points atype asuit (trump_suit g2)
                  in if who = Player
                     then Inr (g2\<lparr>player_ann_points := player_ann_points g2 + pts\<rparr>)
                     else Inr (g2\<lparr>opponent_ann_points := opponent_ann_points g2 + pts\<rparr>))"

text \<open>
  The two draws of \<open>resolve_trick\<close>, winner first: the cards drawn for the player and
  for the opponent, and the game after both draws.
\<close>

definition draw_pair :: "Game \<Rightarrow> By \<Rightarrow> card option \<times> card option \<times> Game" where
  "draw_pair game won =
     (if won = Player then
        (let (p, g1) = draw_from_stock game; (opp, g2) = draw_from_stock g1 in (p, opp, g2))
      else
        (let (opp, g1) = draw_from_stock game; (p, g2) = draw_from_stock g1 in (p, opp, g2)))"

definition append_drawn :: "card list \<Rightarrow> card option \<Rightarrow> card list" where
  "append_drawn hand drawn = (case drawn of None \<Rightarrow> hand | Some c \<Rightarrow> hand @ [c])"

definition resolve_trick :: "Game \<Rightarrow> By \<Rightarrow> card \<Rightarrow> By \<Rightarrow> card \<Rightarrow> Game" where
  "resolve_trick game lead_who lead_c follow_who follow_c =
     (let rel = trick_winner lead_c follow_c (trump_suit game) (talon_not_empty game);
          won = (if rel = 0 then lead_who else follow_who);
          trick_cards = [lead_c, follow_c];
          g1 = (if won = Player
                then game\<lparr>player_tricks := player_tricks game @ [trick_cards]\<rparr>
                else game\<lparr>opponent_tricks := opponent_tricks game @ [trick_cards]\<rparr>);
          g2 = g1\<lparr>last_trick_winner := Some won,
                   leader := (if won = Player then 0 else 1)\<rparr>;
          g3 = (if length (talon g2) > 0 \<or> turnup_in_stock g2 then
                  (let (p, opp, gd) = draw_pair g2 won
                   in gd\<lparr>player_hand := append_drawn (player_hand gd) p,
                          opponent_hand := append_drawn (opponent_hand gd) opp\<rparr>)
                else g2);
          g4 = g3\<lparr>last_trick :=
                     Some \<lparr>lead_by = lead_who, lead_card = lead_c,
                           reply_by = follow_who, reply_card = follow_c,
                           trick_won_by = won, talon_count = length (talon g3)\<rparr>,
                   current_lead := None,
                   current_lead_by := None\<rparr>
      in maybe_finish_game g4)"

section \<open>Engine actions (src/backend/main.py, lines 477-575)\<close>

text \<open>
  Each action mutates the game in place and may raise. Its model returns the error raised
  (\<open>None\<close> when the call returns normally) together with the game as it stands after the
  call, so that a mutation made before a raise is visible.
\<close>

definition announce_type_of :: "Announce \<Rightarrow> AnnounceType" where
  "announce_type_of announce = (case a_type announce of None \<Rightarrow> ANone | Some t \<Rightarrow> t)"

definition hand_of :: "Game \<Rightarrow> By \<Rightarrow> card list" where
  "hand_of game who = (if who = Player then player_hand game else opponent_hand game)"

definition leader_play ::
  "Game \<Rightarrow> By \<Rightarrow> card \<Rightarrow> bool \<Rightarrow> Announce \<Rightarrow> bool \<Rightarrow> error option \<times> Game" where
  "leader_play game who cd au_sept_flag announce shown =
     (if is_over game then (Some GameOver, game)
      else if current_lead game \<noteq> None then (Some TrickAlreadyStarted, game)
      else if (leader game = 0 \<and> who \<noteq> Player) \<or> (leader game = 1 \<and> who \<noteq> Opponent)
        then (Some NotLeader, game)
      else if au_sept_required game \<and> \<not> au_sept_flag then (Some AuSeptRequired, game)
      else
        let hand_snapshot = (if who = Player then player_hand game else opponent_hand game);
            atype = announce_type_of announce;
            asuit = a_suit announce
        in (case apply_announce game who atype asuit shown hand_snapshot of
              Inl e \<Rightarrow> (Some e, game)
            | Inr g1 \<Rightarrow>
                if is_over g1 then (None, g1)
                else if who = Player then
                  (case remove_card (player_hand g1) cd of
                     Inl e \<Rightarrow> (Some e, g1)
                   | Inr h \<Rightarrow>
                       (None, g1\<lparr>player_hand := h, current_lead := Some cd,
                                 current_lead_by := Some who\<rparr>))
                else
                  (case remove_card (opponent_hand g1) cd of
                     Inl e \<Rightarrow> (Some e, g1)
                   | Inr h \<Rightarrow>
                       (None, g1\<lparr>opponent_hand := h, current_lead := Some cd,
                                 current_lead_by := Some who\<rparr>))))"

definition follower_play ::
  "Game \<Rightarrow> By \<Rightarrow> card \<Rightarrow> Announce \<Rightarrow> bool \<Rightarrow> error option \<times> Game" where
  "follower_play game who cd announce shown =
     (if is_over game then (Some GameOver, game)
      else (case (current_lead game, current_lead_by game) of
              (None, _) \<Rightarrow> (Some NoLead, game)
            | (_, None) \<Rightarrow> (Some NoLead, game)
            | (Some lead_c, Some lead_who) \<Rightarrow>
                if who = lead_who then (Some LeaderCannotFollow, game)
                else if \<not> talon_not_empty game \<and>
                        \<not> list_ex (\<lambda>c. card_eq c cd)
                            (compute_legal_moves (hand_of game who) (current_lead game)
                               (trump_suit game) False)
                  then (Some IllegalMove, game)
                else
                  let hand_snapshot = hand_of game who;
                      atype = announce_type_of announce;
                      asuit = a_suit announce
                  in (case apply_announce game who atype asuit shown hand_snapshot of
                        Inl e \<Rightarrow> (Some e, game)
                      | Inr g1 \<Rightarrow>
                          if is_over g1 then (None, g1)
                          else if who = Player then
                            (case remove_card (player_hand g1) cd of
                               Inl e \<Rightarrow> (Some e, g1)
                             | Inr h \<Rightarrow>
                                 (None, resolve_trick (g1\<lparr>player_hand := h\<rparr>)
                                          lead_who lead_c who cd))
                          else
                            (case remove_card (opponent_hand g1) cd of
                               Inl e \<Rightarrow> (Some e, g1)
                             | Inr h \<Rightarrow>
                                 (None, resolve_trick (g1\<lparr>opponent_hand := h\<rparr>)
                                          lead_who lead_c who cd)))))"

text \<open>The loop of \<open>exchange7\<close>: the index of the first seven of trump in the hand.\<close>

fun find_seven :: "card list \<Rightarrow> suit \<Rightarrow> nat option" where
  "find_seven [] t = None"
| "find_seven (c # hand) t =
     (if is_seven_of_trump c t then Some 0
      else (case find_seven hand t of None \<Rightarrow> None | Some i \<Rightarrow> Some (Suc i)))"

definition exchange7 :: "Game \<Rightarrow> error option \<times> Game" where
  "exchange7 game =
     (if is_over game then (Some GameOver, game)
      else if exchange7_done game then (Some ExchangeAlreadyDone, game)
      else if \<not> talon_not_empty game then (Some TalonEmpty, game)
      else (case find_seven (player_hand game) (trump_suit game) of
              None \<Rightarrow> (Some NoSevenOfTrump, game)
            | Some idx \<Rightarrow>
                let seven = player_hand game ! idx
                in (None, game\<lparr>player_hand := (player_hand game)[idx := trump_card game],
                               trump_card := seven,
                               exchange7_done := True\<rparr>)))"

section \<open>Reachable games\<close>

text \<open>
  One step of a game: a call of an engine action with any arguments (the game after the
  call, whether it raised or not), or the terminal check \<open>maybe_finish_game\<close> that the
  callers run after a raise. A game is reachable when such steps lead to it from
  \<open>new_game\<close> on a shuffled deck.
\<close>

inductive step :: "Game \<Rightarrow> Game \<Rightarrow> bool" where
  step_lead: "step g (snd (leader_play g who cd flag ann shown))"
| step_follow: "step g (snd (follower_play g who cd ann shown))"
| step_exchange: "step g (snd (exchange7 g))"
| step_finish: "step g (maybe_finish_game g)"

inductive reachable :: "Game \<Rightarrow> bool" where
  reach_new: "shuffled deck \<Longrightarrow> reachable (new_game gid deck)"
| reach_step: "reachable g \<Longrightarrow> step g g' \<Longrightarrow> reachable g'"

text \<open>The card zones named by the conservation property, as multisets.\<close>

definition turnup_zone :: "Game \<Rightarrow> card multiset" where
  "turnup_zone g = (if turnup_in_stock g then {#trump_card g#} else {#})"

definition lead_zone :: "Game \<Rightarrow> card multiset" where
  "lead_zone g = (case current_lead g of None \<Rightarrow> {#} | Some c \<Rightarrow> {#c#})"

definition zones :: "Game \<Rightarrow> card multiset" where
  "zones g = mset (player_hand g) + mset (opponent_hand g) + mset (talon g) + turnup_zone g
             + mset (concat (player_tricks g)) + mset (concat (opponent_tricks g))"

definition stock_exhausted :: "Game \<Rightarrow> bool" where
  "stock_exhausted g \<longleftrightarrow> talon g = [] \<and> \<not> turnup_in_stock g"

text \<open>
  The invariants of reachable games. The stock: either the turnup is still reserved under
  a talon of odd length, or the talon is empty and the turnup is gone. The cards: the
  zones together with the card of the trick in progress are the deck.
\<close>

definition stock_inv :: "Game \<Rightarrow> bool" where
  "stock_inv g \<longleftrightarrow>
     (turnup_in_stock g \<and> odd (length (talon g))) \<or> (talon g = [] \<and> \<not> turnup_in_stock g)"

definition conserved :: "Game \<Rightarrow> bool" where
  "conserved g \<longleftrightarrow> zones g + lead_zone g = mset new_deck"

text \<open>
  Two abbreviations for the proofs: the multiset of an optional card, and the game with
  the hand of one side replaced (the two branches \<open>if by == "player"\<close> of the actions).
\<close>

definition opt_mset :: "card option \<Rightarrow> card multiset" where
  "opt_mset x = (case x of None \<Rightarrow> {#} | Some c \<Rightarrow> {#c#})"

definition set_hand :: "Game \<Rightarrow> By \<Rightarrow> card list \<Rightarrow> Game" where
  "set_hand g who h = (if who = Player then g\<lparr>player_hand := h\<rparr> else g\<lparr>opponent_hand := h\<rparr>)"

section \<open>A sample game\<close>

text \<open>
  Sequences of calls, to run the engine on concrete games: a move is one call of an engine
  action (or of the terminal check) with its arguments.
\<close>

datatype move =
    Lead By card bool Announce bool
  | Follow By card Announce bool
  | Exchange
  | Finish

fun apply_move :: "Game \<Rightarrow> move \<Rightarrow> Game" where
  "apply_move g (Lead who cd flag ann shown) = snd (leader_play g who cd flag ann shown)"
| "apply_move g (Follow who cd ann shown) = snd (follower_play g who cd ann shown)"
| "apply_move g Exchange = snd (exchange7 g)"
| "apply_move g Finish = maybe_finish_game g"

fun run :: "Game \<Rightarrow> move list \<Rightarrow> Game" where
  "run g [] = g"
| "run g (m # ms) = run (apply_move g m) ms"

definition no_announce :: Announce where
  "no_announce = \<lparr>a_type = None, a_suit = None\<rparr>"

text \<open>
  A shuffle in which the player is dealt the seven of trump: the deck reversed and rotated
  by five cards. The player gets (S,K) (S,10) (S,A) (C,7) (C,8), the opponent the clubs
  9, J, Q, K, 10, and the turnup is (C,A).
\<close>

definition sample_deck :: "card list" where
  "sample_deck = rotate 5 (rev new_deck)"

definition sample_game :: Game where
  "sample_game = new_game ''sample'' sample_deck"

text \<open>
  Twelve tricks without announces. The first eleven empty the stock; in the twelfth the
  player leads the seven of trump and the opponent takes it with the ace, which leaves the
  player with spades only and the opponent with hearts only.
\<close>

definition sample_line :: "move list" where
  "sample_line =
     [Lead Player (Card C R8) False no_announce False,
      Follow Opponent (Card C R9) no_announce False,
      Lead Opponent (Card C J) False no_announce False,
      Follow Player (Card D R8) no_announce False,
      Lead Opponent (Card C Q) False no_announce False,
      Follow Player (Card D J) no_announce False,
      Lead Opponent (Card C K) False no_announce False,
      Follow Player (Card D K) no_announce False,
      Lead Opponent (Card C R10) False no_announce False,
      Follow Player (Card D A) no_announce False,
      Lead Opponent (Card D R7) False no_announce False,
      Follow Player (Card H R8) no_announce False,
      Lead Opponent (Card D R9) False no_announce False,
      Follow Player (Card H J) no_announce False,
      Lead Opponent (Card D Q) False no_announce False,
      Follow Player (Card H K) no_announce False,
      Lead Opponent (Card D R10) False no_announce False,
      Follow Player (Card H A) no_announce False,
      Lead Opponent (Card S R7) False no_announce False,
      Follow Player (Card S R8) no_announce False,
      Lead Player (Card S K) False no_announce False,
      Follow Opponent (Card S J) no_announce False,
      Lead Player (Card C R7) False no_announce False,
      Follow Opponent (Card C A) no_announce False]"

definition endgame :: Game where
  "endgame = run sample_game (sample_line @ [Lead Opponent (Card H R7) False no_announce False])"

text \<open>
  Further concrete inputs: the game dealt from the deck in its initial order (the player
  holds A, 10, K, Q, J of hearts and the turnup is (D,K)), the sample game after the
  player's first lead, and two mariage announces.
\<close>

definition unshuffled_game :: Game where
  "unshuffled_game = new_game ''plain'' new_deck"

definition first_lead :: Game where
  "first_lead = run sample_game [Lead Player (Card C R8) False no_announce False]"

definition mariage_H :: Announce where
  "mariage_H = \<lparr>a_type = Some Mariage, a_suit = Some H\<rparr>"

definition mariage_C :: Announce where
  "mariage_C = \<lparr>a_type = Some Mariage, a_suit = Some C\<rparr>"

section \<open>Properties of the rule engine\<close>

lemma RANK_STRENGTH_enumerate: "map RANK_STRENGTH RANKS = [0..<8]"
  by (simp add: RANKS_def upt_rec)

lemma RANK_STRENGTH_inj: "RANK_STRENGTH a = RANK_STRENGTH b \<longleftrightarrow> a = b"
  by (cases a; cases b) simp_all

lemma has_suit_iff: "has_suit hand s \<longleftrightarrow> (\<exists>c \<in> set hand. suit c = s)"
  by (simp add: has_suit_def list_ex_iff)

text \<open>
  The overtrump restriction of \<open>compute_legal_moves\<close> is never applied: a trump lead
  against a hand that holds a trump is already answered by the follow-suit return, so the
  result is always the same-suit cards, else all trumps, else the whole hand.
\<close>

lemma overtrump_branch_dead:
  "compute_legal_moves hand (Some lc) t False =
     (if has_suit hand (suit lc) then filter (\<lambda>c. suit c = suit lc) hand
      else if trumps hand t \<noteq> [] then trumps hand t else hand)"
  by (auto simp: compute_legal_moves_def Let_def has_suit_iff trumps_def filter_empty_conv)

text \<open>
  Claim C1 (forced overtrump scenario): with the stock exhausted, trump H, lead (H,Q) and
  a hand holding (H,K) and (H,7), the legal set should be (H,K) only. The code does not
  do this: both \<open>compute_legal_moves\<close> and its sibling \<open>legal_moves\<close> return both
  trumps, although \<open>overtrumps\<close> on the same input selects (H,K) alone.
\<close>

theorem forced_overtrump_scenario:
  "compute_legal_moves [Card H K, Card H R7] (Some (Card H Q)) H False = [Card H K, Card H R7]
   \<and> legal_moves [Card H K, Card H R7] (Some (Card H Q)) H False = [Card H K, Card H R7]
   \<and> overtrumps [Card H K, Card H R7] H (Card H Q) = [Card H K]"
  by (simp add: compute_legal_moves_def legal_moves_def overtrumps_def has_suit_def Let_def)

text \<open>
  Claim C4 (trick winner): for distinct cards and any trump suit, the follower wins when
  the reply is trump and the lead is not; the leader wins when the lead is trump and the
  reply is not; when both cards share a suit their strengths differ and the side with the
  stronger card (the smaller index in the order A,10,K,Q,J,9,8,7) wins.
\<close>

theorem trick_winner_correct:
  assumes "lead \<noteq> reply"
  shows "(suit reply = t \<and> suit lead \<noteq> t \<longrightarrow> trick_winner lead reply t b = 1)
       \<and> (suit lead = t \<and> suit reply \<noteq> t \<longrightarrow> trick_winner lead reply t b = 0)
       \<and> (suit lead = suit reply \<longrightarrow>
            RANK_STRENGTH (rank lead) \<noteq> RANK_STRENGTH (rank reply)
          \<and> (RANK_STRENGTH (rank lead) < RANK_STRENGTH (rank reply) \<longrightarrow> trick_winner lead reply t b = 0)
          \<and> (RANK_STRENGTH (rank reply) < RANK_STRENGTH (rank lead) \<longrightarrow> trick_winner lead reply t b = 1))
       \<and> map RANK_STRENGTH [A, R10, K, Q, J, R9, R8, R7] = [0, 1, 2, 3, 4, 5, 6, 7]"
proof -
  have ne: "suit lead = suit reply \<Longrightarrow> RANK_STRENGTH (rank lead) \<noteq> RANK_STRENGTH (rank reply)"
    using assms by (auto simp: RANK_STRENGTH_inj intro: card.expand)
  show ?thesis
    using ne by (auto simp: trick_winner_def Let_def)
qed

theorem trick_winner_correct_witness:
  "Card S A \<noteq> Card H R7 \<and> trick_winner (Card S A) (Card H R7) H False = 1
   \<and> trick_winner (Card H R7) (Card S A) H False = 0
   \<and> Card S A \<noteq> Card S K \<and> trick_winner (Card S A) (Card S K) H True = 0
   \<and> trick_winner (Card S K) (Card S A) H True = 1"
  using trick_winner_correct [of "Card S A" "Card H R7" H False]
        trick_winner_correct [of "Card H R7" "Card S A" H False]
        trick_winner_correct [of "Card S A" "Card S K" H True]
        trick_winner_correct [of "Card S K" "Card S A" H True]
  by simp

text \<open>
  Claim C7 (legality non-emptiness): for every non-empty hand, any lead card or none, any
  trump suit and either value of the talon flag, \<open>compute_legal_moves\<close> returns a
  non-empty list.
\<close>

theorem legal_moves_nonempty:
  "hand \<noteq> [] \<Longrightarrow> compute_legal_moves hand ld t b \<noteq> []"
  by (auto simp: compute_legal_moves_def Let_def has_suit_iff filter_empty_conv split: option.splits)

theorem legal_moves_nonempty_witness:
  "[Card H K, Card H R7] \<noteq> [] \<and> compute_legal_moves [Card H K, Card H R7] (Some (Card S Q)) H False \<noteq> []"
  using legal_moves_nonempty [of "[Card H K, Card H R7]" "Some (Card S Q)" H False] by simp

section \<open>Invariants of the state machine\<close>

lemma card_eq_iff: "card_eq a b \<longleftrightarrow> a = b"
  by (auto simp: card_eq_def intro: card.expand)

lemma remove_card_mset: "remove_card hand c = Inr h \<Longrightarrow> mset hand = add_mset c (mset h)"
  by (induction hand arbitrary: h) (auto simp: card_eq_iff split: if_splits sum.splits)

lemma remove_card_error: "remove_card hand c = Inl e \<Longrightarrow> e = CardNotInHand \<and> c \<notin> set hand"
  by (induction hand) (auto simp: card_eq_iff split: if_splits sum.splits)

lemma apply_announce_cards:
  "apply_announce g who t s sh snap = Inr g' \<Longrightarrow>
     player_hand g' = player_hand g \<and> opponent_hand g' = opponent_hand g
   \<and> talon g' = talon g \<and> trump_card g' = trump_card g \<and> trump_suit g' = trump_suit g
   \<and> turnup_in_stock g' = turnup_in_stock g
   \<and> player_tricks g' = player_tricks g \<and> opponent_tricks g' = opponent_tricks g
   \<and> current_lead g' = current_lead g \<and> current_lead_by g' = current_lead_by g
   \<and> exchange7_done g' = exchange7_done g \<and> leader g' = leader g
   \<and> last_trick_winner g' = last_trick_winner g"
  by (auto simp: apply_announce_def Let_def split: if_splits)

lemma apply_announce_inv:
  "apply_announce g who t s sh snap = Inr g' \<Longrightarrow>
     zones g' = zones g \<and> lead_zone g' = lead_zone g \<and> stock_inv g' = stock_inv g"
  by (drule apply_announce_cards) (simp add: zones_def lead_zone_def stock_inv_def turnup_zone_def)

lemma maybe_finish_game_inv:
  "zones (maybe_finish_game g) = zones g \<and> lead_zone (maybe_finish_game g) = lead_zone g
   \<and> stock_inv (maybe_finish_game g) = stock_inv g
   \<and> exchange7_done (maybe_finish_game g) = exchange7_done g"
  by (simp add: maybe_finish_game_def zones_def lead_zone_def stock_inv_def turnup_zone_def Let_def)

lemma draw_pair_inv:
  assumes "stock_inv g" "draw_pair g w = (p, opp, gd)"
  shows "stock_inv gd
       \<and> mset (talon gd) + turnup_zone gd + opt_mset p + opt_mset opp = mset (talon g) + turnup_zone g
       \<and> gd = g\<lparr>talon := talon gd, turnup_in_stock := turnup_in_stock gd\<rparr>"
proof (cases "talon g")
  case Nil
  then show ?thesis using assms
    by (auto simp: stock_inv_def draw_pair_def draw_from_stock_def turnup_zone_def opt_mset_def split: if_splits)
next
  case (Cons x xs)
  then show ?thesis using assms
    by (cases xs) (auto simp: stock_inv_def draw_pair_def draw_from_stock_def turnup_zone_def opt_mset_def split: if_splits)
qed

lemma append_drawn_mset: "mset (append_drawn h d) = mset h + opt_mset d"
  by (simp add: append_drawn_def opt_mset_def split: option.splits)

lemma resolve_trick_inv:
  assumes "stock_inv g" "zones g + {#lc, fc#} = mset new_deck"
  shows "stock_inv (resolve_trick g lw lc fw fc)
       \<and> zones (resolve_trick g lw lc fw fc) = mset new_deck
       \<and> lead_zone (resolve_trick g lw lc fw fc) = {#}
       \<and> exchange7_done (resolve_trick g lw lc fw fc) = exchange7_done g"
proof -
  define won where "won = (if trick_winner lc fc (trump_suit g) (talon_not_empty g) = 0 then lw else fw)"
  define g2 where "g2 = (if won = Player
                then g\<lparr>player_tricks := player_tricks g @ [[lc, fc]]\<rparr>
                else g\<lparr>opponent_tricks := opponent_tricks g @ [[lc, fc]]\<rparr>)
                  \<lparr>last_trick_winner := Some won, leader := (if won = Player then 0 else 1)\<rparr>"
  define g3 where "g3 = (if length (talon g2) > 0 \<or> turnup_in_stock g2 then
                  (let (p, opp, gd) = draw_pair g2 won
                   in gd\<lparr>player_hand := append_drawn (player_hand gd) p,
                          opponent_hand := append_drawn (opponent_hand gd) opp\<rparr>)
                else g2)"
  define g4 where "g4 = g3\<lparr>last_trick :=
                     Some \<lparr>lead_by = lw, lead_card = lc,
                           reply_by = fw, reply_card = fc,
                           trick_won_by = won, talon_count = length (talon g3)\<rparr>,
                   current_lead := None,
                   current_lead_by := None\<rparr>"
  have res: "resolve_trick g lw lc fw fc = maybe_finish_game g4"
    by (simp add: resolve_trick_def Let_def won_def g2_def g3_def g4_def)
  have "zones g2 = zones g + {#lc, fc#}"
    by (auto simp: g2_def zones_def turnup_zone_def)
  then have z2: "zones g2 = mset new_deck"
    using assms(2) by simp
  have s2: "stock_inv g2"
    using assms(1) by (simp add: g2_def stock_inv_def)
  have e2: "exchange7_done g2 = exchange7_done g"
    by (simp add: g2_def)
  obtain p opp gd where dp: "draw_pair g2 won = (p, opp, gd)"
    by (cases "draw_pair g2 won") auto
  note di = draw_pair_inv [OF s2 dp]
  have gd_eq: "gd = g2\<lparr>talon := talon gd, turnup_in_stock := turnup_in_stock gd\<rparr>"
    using di by simp
  have "zones g3 = mset new_deck \<and> stock_inv g3 \<and> exchange7_done g3 = exchange7_done g"
  proof (cases "length (talon g2) > 0 \<or> turnup_in_stock g2")
    case False
    then show ?thesis using z2 s2 e2 by (simp add: g3_def)
  next
    case True
    then have g3_eq: "g3 = gd\<lparr>player_hand := append_drawn (player_hand gd) p,
                          opponent_hand := append_drawn (opponent_hand gd) opp\<rparr>"
      using dp by (simp add: g3_def)
    have ph: "player_hand gd = player_hand g2" and oh: "opponent_hand gd = opponent_hand g2"
      and pt: "player_tricks gd = player_tricks g2" and ot: "opponent_tricks gd = opponent_tricks g2"
      and ex: "exchange7_done gd = exchange7_done g2"
      by (subst gd_eq, simp)+
    have "zones g3 = mset (player_hand g2) + mset (opponent_hand g2)
            + (mset (talon gd) + turnup_zone gd + opt_mset p + opt_mset opp)
            + mset (concat (player_tricks g2)) + mset (concat (opponent_tricks g2))"
      by (simp add: g3_eq zones_def append_drawn_mset turnup_zone_def ph oh pt ot)
    also have "\<dots> = zones g2"
      using di by (simp add: zones_def)
    finally have "zones g3 = mset new_deck" using z2 by simp
    moreover have "stock_inv g3" using di by (simp add: g3_eq stock_inv_def)
    moreover have "exchange7_done g3 = exchange7_done g" using ex e2 by (simp add: g3_eq)
    ultimately show ?thesis by simp
  qed
  moreover have "zones g4 = zones g3"
    by (auto simp: g4_def zones_def turnup_zone_def)
  moreover have "stock_inv g4 = stock_inv g3" "exchange7_done g4 = exchange7_done g3"
    "lead_zone g4 = {#}"
    by (simp_all add: g4_def stock_inv_def lead_zone_def)
  ultimately show ?thesis
    by (simp add: res maybe_finish_game_inv)
qed

lemma length_new_deck: "length new_deck = 32"
  by (simp add: new_deck_def RANKS_def SUITS_def)

lemma shuffled_length: "shuffled deck \<Longrightarrow> length deck = 32"
  using length_new_deck by (metis shuffled_def size_mset)

lemma deal_split:
  assumes "length deck = 32"
  shows "deck = take 5 deck @ take 5 (drop 5 deck) @ (deck ! 10) # drop 11 deck"
proof -
  have "take 10 deck = take 5 deck @ take 5 (drop 5 deck)"
    using take_add [of 5 5 deck] by simp
  moreover have "drop 10 deck = (deck ! 10) # drop 11 deck"
    using assms Cons_nth_drop_Suc [of 10 deck] by simp
  moreover have "deck = take 10 deck @ drop 10 deck" by simp
  ultimately show ?thesis by (metis append.assoc)
qed

lemma new_game_inv:
  assumes "shuffled deck"
  shows "stock_inv (new_game gid deck) \<and> conserved (new_game gid deck)"
proof -
  have len: "length deck = 32" using assms by (rule shuffled_length)
  have "mset deck = mset (take 5 deck) + mset (take 5 (drop 5 deck)) + mset (drop 11 deck) + {#deck ! 10#}"
    by (subst deal_split [OF len]) simp
  then have "conserved (new_game gid deck)"
    using assms by (simp add: conserved_def zones_def lead_zone_def turnup_zone_def new_game_def shuffled_def Let_def)
  moreover have "stock_inv (new_game gid deck)"
    using len by (simp add: stock_inv_def new_game_def Let_def)
  ultimately show ?thesis by simp
qed

lemma leader_play_cases:
  "snd (leader_play g who cd flag ann shown) = g
   \<or> (\<exists>g1. apply_announce g who (announce_type_of ann) (a_suit ann) shown (hand_of g who) = Inr g1
         \<and> current_lead g = None
         \<and> (snd (leader_play g who cd flag ann shown) = g1
            \<or> (\<exists>h. remove_card (hand_of g1 who) cd = Inr h
                 \<and> snd (leader_play g who cd flag ann shown) =
                     (set_hand g1 who h)\<lparr>current_lead := Some cd, current_lead_by := Some who\<rparr>)))"
proof (cases "is_over g \<or> current_lead g \<noteq> None
              \<or> (leader g = 0 \<and> who \<noteq> Player) \<or> (leader g = 1 \<and> who \<noteq> Opponent)
              \<or> (au_sept_required g \<and> \<not> flag)")
  case True
  then have "snd (leader_play g who cd flag ann shown) = g"
    unfolding leader_play_def by (simp only: if_True if_False snd_conv split: if_split) blast
  then show ?thesis by simp
next
  case ok: False
  show ?thesis
  proof (cases "apply_announce g who (announce_type_of ann) (a_suit ann) shown (hand_of g who)")
    case (Inl e)
    then have "snd (leader_play g who cd flag ann shown) = g"
      using ok by (auto simp: leader_play_def hand_of_def Let_def)
    then show ?thesis by simp
  next
    case (Inr g1)
    show ?thesis
    proof (cases "is_over g1")
      case True
      then have "snd (leader_play g who cd flag ann shown) = g1"
        using ok Inr by (auto simp: leader_play_def hand_of_def Let_def)
      then show ?thesis using ok Inr by simp
    next
      case False
      show ?thesis
      proof (cases "remove_card (hand_of g1 who) cd")
        case (Inl e)
        then have "snd (leader_play g who cd flag ann shown) = g1"
          using ok Inr False by (auto simp: leader_play_def hand_of_def Let_def)
        then show ?thesis using ok Inr by simp
      next
        case h: (Inr h)
        then have "snd (leader_play g who cd flag ann shown) =
                     (set_hand g1 who h)\<lparr>current_lead := Some cd, current_lead_by := Some who\<rparr>"
          using ok Inr False by (auto simp: leader_play_def hand_of_def set_hand_def Let_def)
        then show ?thesis using ok Inr h by simp
      qed
    qed
  qed
qed

lemma follower_play_cases:
  "snd (follower_play g who cd ann shown) = g
   \<or> (\<exists>g1 lc lw. apply_announce g who (announce_type_of ann) (a_suit ann) shown (hand_of g who) = Inr g1
         \<and> current_lead g = Some lc \<and> current_lead_by g = Some lw
         \<and> (snd (follower_play g who cd ann shown) = g1
            \<or> (\<exists>h. remove_card (hand_of g1 who) cd = Inr h
                 \<and> snd (follower_play g who cd ann shown) =
                     resolve_trick (set_hand g1 who h) lw lc who cd)))"
proof (cases "is_over g \<or> current_lead g = None \<or> current_lead_by g = None")
  case True
  then have "snd (follower_play g who cd ann shown) = g"
    by (auto simp: follower_play_def split: option.splits)
  then show ?thesis by simp
next
  case False
  then obtain lc lw where l: "current_lead g = Some lc" "current_lead_by g = Some lw"
    and no: "\<not> is_over g" by auto
  show ?thesis
  proof (cases "who = lw \<or> (\<not> talon_not_empty g \<and>
                        \<not> list_ex (\<lambda>c. card_eq c cd)
                            (compute_legal_moves (hand_of g who) (current_lead g)
                               (trump_suit g) False))")
    case True
    then have "snd (follower_play g who cd ann shown) = g"
      using l no by (auto simp: follower_play_def)
    then show ?thesis by simp
  next
    case ok: False
    show ?thesis
    proof (cases "apply_announce g who (announce_type_of ann) (a_suit ann) shown (hand_of g who)")
      case (Inl e)
      then have "snd (follower_play g who cd ann shown) = g"
        using ok l no by (auto simp: follower_play_def Let_def)
      then show ?thesis by simp
    next
      case (Inr g1)
      show ?thesis
      proof (cases "is_over g1")
        case True
        then have "snd (follower_play g who cd ann shown) = g1"
          using ok l no Inr by (auto simp: follower_play_def Let_def)
        then show ?thesis using l Inr by simp
      next
        case False
        show ?thesis
        proof (cases "remove_card (hand_of g1 who) cd")
          case (Inl e)
          then have "snd (follower_play g who cd ann shown) = g1"
            using ok l no Inr False by (auto simp: follower_play_def hand_of_def Let_def)
          then show ?thesis using l Inr by simp
        next
          case h: (Inr h)
          then have "snd (follower_play g who cd ann shown) =
                       resolve_trick (set_hand g1 who h) lw lc who cd"
            using ok l no Inr False by (auto simp: follower_play_def hand_of_def set_hand_def Let_def)
          then show ?thesis using l Inr h by simp
        qed
      qed
    qed
  qed
qed

lemma set_hand_inv:
  "zones (set_hand g who h) + mset (hand_of g who) = zones g + mset h"
  "stock_inv (set_hand g who h) = stock_inv g"
  "lead_zone (set_hand g who h) = lead_zone g"
  "exchange7_done (set_hand g who h) = exchange7_done g"
  by (auto simp: set_hand_def hand_of_def zones_def turnup_zone_def stock_inv_def lead_zone_def)

lemma set_lead_inv:
  "zones (g\<lparr>current_lead := x, current_lead_by := y\<rparr>) = zones g"
  "stock_inv (g\<lparr>current_lead := x, current_lead_by := y\<rparr>) = stock_inv g"
  "lead_zone (g\<lparr>current_lead := Some c, current_lead_by := y\<rparr>) = {#c#}"
  "exchange7_done (g\<lparr>current_lead := x, current_lead_by := y\<rparr>) = exchange7_done g"
  by (auto simp: zones_def turnup_zone_def stock_inv_def lead_zone_def)

lemma removed_zones:
  assumes "remove_card (hand_of g who) cd = Inr h"
  shows "zones (set_hand g who h) + {#cd#} = zones g"
proof -
  have "zones (set_hand g who h) + mset (hand_of g who) = zones g + mset h"
    by (rule set_hand_inv)
  then show ?thesis using remove_card_mset [OF assms] by simp
qed

lemma leader_play_inv:
  assumes "stock_inv g" "conserved g"
  shows "stock_inv (snd (leader_play g who cd flag ann shown))
       \<and> conserved (snd (leader_play g who cd flag ann shown))"
  using leader_play_cases [of g who cd flag ann shown]
proof (elim disjE exE conjE)
  assume "snd (leader_play g who cd flag ann shown) = g"
  then show ?thesis using assms by simp
next
  fix g1
  assume a: "apply_announce g who (announce_type_of ann) (a_suit ann) shown (hand_of g who) = Inr g1"
    and "snd (leader_play g who cd flag ann shown) = g1"
  then show ?thesis using assms apply_announce_inv [OF a] by (simp add: conserved_def)
next
  fix g1 h
  assume a: "apply_announce g who (announce_type_of ann) (a_suit ann) shown (hand_of g who) = Inr g1"
    and nl: "current_lead g = None"
    and r: "remove_card (hand_of g1 who) cd = Inr h"
    and lp: "snd (leader_play g who cd flag ann shown) =
               (set_hand g1 who h)\<lparr>current_lead := Some cd, current_lead_by := Some who\<rparr>"
  have "zones g1 = mset new_deck"
    using assms(2) nl apply_announce_inv [OF a] by (simp add: conserved_def lead_zone_def)
  then have "conserved (snd (leader_play g who cd flag ann shown))"
    using removed_zones [OF r] by (simp add: lp conserved_def set_lead_inv)
  moreover have "stock_inv (snd (leader_play g who cd flag ann shown))"
    using assms(1) apply_announce_inv [OF a] by (simp add: lp set_lead_inv set_hand_inv)
  ultimately show ?thesis by simp
qed

lemma follower_play_inv:
  assumes "stock_inv g" "conserved g"
  shows "stock_inv (snd (follower_play g who cd ann shown))
       \<and> conserved (snd (follower_play g who cd ann shown))"
  using follower_play_cases [of g who cd ann shown]
proof (elim disjE exE conjE)
  assume "snd (follower_play g who cd ann shown) = g"
  then show ?thesis using assms by simp
next
  fix g1 lc lw
  assume a: "apply_announce g who (announce_type_of ann) (a_suit ann) shown (hand_of g who) = Inr g1"
    and "snd (follower_play g who cd ann shown) = g1"
  then show ?thesis using assms apply_announce_inv [OF a] by (simp add: conserved_def)
next
  fix g1 lc lw h
  assume a: "apply_announce g who (announce_type_of ann) (a_suit ann) shown (hand_of g who) = Inr g1"
    and cl: "current_lead g = Some lc"
    and r: "remove_card (hand_of g1 who) cd = Inr h"
    and fp: "snd (follower_play g who cd ann shown) = resolve_trick (set_hand g1 who h) lw lc who cd"
  have "zones g1 + {#lc#} = mset new_deck"
    using assms(2) cl apply_announce_inv [OF a] by (simp add: conserved_def lead_zone_def)
  then have z: "zones (set_hand g1 who h) + {#lc, cd#} = mset new_deck"
    using removed_zones [OF r] by simp
  have s: "stock_inv (set_hand g1 who h)"
    using assms(1) apply_announce_inv [OF a] by (simp add: set_hand_inv)
  show ?thesis
    using resolve_trick_inv [OF s z, of lw who] by (simp add: fp conserved_def)
qed

lemma find_seven_Some:
  "find_seven hand t = Some i \<Longrightarrow> i < length hand \<and> is_seven_of_trump (hand ! i) t"
  by (induction hand arbitrary: i) (auto split: if_splits option.splits)

lemma find_seven_None:
  "find_seven hand t = None \<longleftrightarrow> (\<forall>c \<in> set hand. \<not> is_seven_of_trump c t)"
  by (induction hand) (auto split: option.splits)

lemma exchange7_cases:
  "snd (exchange7 g) = g
   \<or> (\<exists>idx. find_seven (player_hand g) (trump_suit g) = Some idx \<and> talon g \<noteq> []
         \<and> snd (exchange7 g) = g\<lparr>player_hand := (player_hand g)[idx := trump_card g],
                                  trump_card := player_hand g ! idx,
                                  exchange7_done := True\<rparr>)"
  by (auto simp: exchange7_def Let_def talon_not_empty_def split: option.splits)

lemma exchange7_inv:
  assumes "stock_inv g" "conserved g"
  shows "stock_inv (snd (exchange7 g)) \<and> conserved (snd (exchange7 g))"
  using exchange7_cases [of g]
proof (elim disjE exE conjE)
  assume "snd (exchange7 g) = g"
  then show ?thesis using assms by simp
next
  fix idx
  assume f: "find_seven (player_hand g) (trump_suit g) = Some idx" and t: "talon g \<noteq> []"
    and e: "snd (exchange7 g) = g\<lparr>player_hand := (player_hand g)[idx := trump_card g],
                                  trump_card := player_hand g ! idx,
                                  exchange7_done := True\<rparr>"
  have tu: "turnup_in_stock g" using assms(1) t by (auto simp: stock_inv_def)
  have i: "idx < length (player_hand g)" using find_seven_Some [OF f] by simp
  have "mset ((player_hand g)[idx := trump_card g]) + {#player_hand g ! idx#}
          = mset (player_hand g) + {#trump_card g#}"
    using i by (simp add: mset_update)
  then have "zones (snd (exchange7 g)) = zones g"
    using tu by (simp add: e zones_def turnup_zone_def)
  moreover have "lead_zone (snd (exchange7 g)) = lead_zone g"
    by (simp add: e lead_zone_def)
  moreover have "stock_inv (snd (exchange7 g))"
    using assms(1) by (simp add: e stock_inv_def)
  ultimately show ?thesis using assms(2) by (simp add: conserved_def)
qed

lemma step_inv: "step g g' \<Longrightarrow> stock_inv g \<Longrightarrow> conserved g \<Longrightarrow> stock_inv g' \<and> conserved g'"
proof (induction rule: step.induct)
  case (step_lead g who cd flag ann shown)
  then show ?case by (simp add: leader_play_inv)
next
  case (step_follow g who cd ann shown)
  then show ?case by (simp add: follower_play_inv)
next
  case (step_exchange g)
  then show ?case by (simp add: exchange7_inv)
next
  case (step_finish g)
  then show ?case by (simp add: maybe_finish_game_inv conserved_def)
qed

lemma reachable_inv: "reachable g \<Longrightarrow> stock_inv g \<and> conserved g"
  by (induction rule: reachable.induct) (auto simp: new_game_inv dest: step_inv)

section \<open>Reachable games: conservation and the stock\<close>

lemma step_apply_move: "step g (apply_move g m)"
  by (cases m) (auto intro: step.intros)

lemma reachable_run: "reachable g \<Longrightarrow> reachable (run g ms)"
  by (induction ms arbitrary: g) (auto intro: reach_step step_apply_move)

lemma mset_rotate_eq: "mset (rotate n xs) = mset xs"
proof -
  have "mset (drop k xs @ take k xs) = mset (take k xs @ drop k xs)" for k
    by (simp only: mset_append add.commute)
  then show ?thesis by (simp only: rotate_drop_take append_take_drop_id)
qed

lemma shuffled_sample_deck: "shuffled sample_deck"
  by (simp add: shuffled_def sample_deck_def mset_rotate_eq)

lemma reachable_sample_game: "reachable sample_game"
  unfolding sample_game_def by (rule reach_new [OF shuffled_sample_deck])

lemma reachable_endgame: "reachable endgame"
  unfolding endgame_def by (rule reachable_run [OF reachable_sample_game])

lemma endgame_fields:
  "talon endgame = []"
  "turnup_in_stock endgame = False"
  "trump_suit endgame = C"
  "current_lead endgame = Some (Card H R7)"
  "current_lead_by endgame = Some Opponent"
  "player_hand endgame = [Card S R10, Card S A, Card S R9, Card S Q]"
  "is_over endgame = False"
  by code_simp+

lemma distinct_new_deck: "distinct new_deck"
  by (simp add: new_deck_def RANKS_def SUITS_def)

lemma set_new_deck: "c \<in> set new_deck"
  by (cases c; cases "suit c"; cases "rank c") (simp_all add: new_deck_def RANKS_def SUITS_def)

lemma count_new_deck: "count (mset new_deck) c = 1"
  using distinct_new_deck set_new_deck by (simp add: distinct_count_atmost_1)

text \<open>
  Claim C5 (conservation), amended: in every reachable game the multiset union of the
  player's hand, the opponent's hand, the talon, the reserved turnup (while in the stock)
  and the two trick piles, together with the card of the trick in progress, is the
  32-card deck, every card exactly once. Between tricks the listed zones alone are the
  deck.
\<close>

theorem conservation_with_lead:
  assumes "reachable g"
  shows "zones g + lead_zone g = mset new_deck
       \<and> count (zones g + lead_zone g) c = 1
       \<and> (current_lead g = None \<longrightarrow> zones g = mset new_deck)"
proof -
  have "zones g + lead_zone g = mset new_deck"
    using reachable_inv [OF assms] by (simp add: conserved_def)
  then show ?thesis using count_new_deck [of c] by (auto simp: lead_zone_def)
qed

theorem conservation_with_lead_witness:
  "reachable endgame \<and> current_lead endgame = Some (Card H R7)
   \<and> zones endgame + {#Card H R7#} = mset new_deck"
  using conservation_with_lead [OF reachable_endgame] reachable_endgame
  by (simp add: endgame_fields lead_zone_def)

text \<open>
  The zones listed in claim C5 do not include the lead card of an open trick: in the
  sample game, after the opponent's lead of (H,7), they hold 31 cards.
\<close>

theorem conservation_counterexample:
  "reachable endgame \<and> zones endgame \<noteq> mset new_deck"
proof -
  have "zones endgame + {#Card H R7#} = mset new_deck"
    using reachable_inv [OF reachable_endgame]
    by (simp add: conserved_def lead_zone_def endgame_fields)
  then have "size (zones endgame) + 1 = size (mset new_deck)"
    by (metis size_add_mset add_mset_add_single Suc_eq_plus1)
  then have "zones endgame \<noteq> mset new_deck" by auto
  then show ?thesis using reachable_endgame by simp
qed

lemma new_game_talon:
  "shuffled deck \<Longrightarrow> length (talon (new_game gid deck)) = 21 \<and> turnup_in_stock (new_game gid deck)"
  by (simp add: new_game_def Let_def shuffled_length)

text \<open>
  Claim C10: in every reachable game an empty talon implies that the turnup is no longer
  in the stock. The turnup stays reserved under a talon of odd length (21 cards at the
  deal, two drawn per trick) and leaves with the last talon card, so the engine's test
  \<open>talon_not_empty\<close> holds exactly when the stock is not exhausted.
\<close>

theorem talon_empty_turnup_gone:
  assumes "reachable g"
  shows "(talon g = [] \<longrightarrow> \<not> turnup_in_stock g)
       \<and> ((turnup_in_stock g \<and> odd (length (talon g))) \<or> (talon g = [] \<and> \<not> turnup_in_stock g))
       \<and> (talon_not_empty g \<longleftrightarrow> \<not> stock_exhausted g)
       \<and> (\<forall>gid deck. shuffled deck \<longrightarrow>
              length (talon (new_game gid deck)) = 21 \<and> turnup_in_stock (new_game gid deck))"
  using reachable_inv [OF assms]
  by (auto simp: stock_inv_def talon_not_empty_def stock_exhausted_def new_game_talon)

theorem talon_empty_turnup_gone_witness:
  "reachable endgame \<and> talon endgame = [] \<and> \<not> turnup_in_stock endgame \<and> stock_exhausted endgame
   \<and> shuffled sample_deck \<and> length (talon sample_game) = 21"
  using talon_empty_turnup_gone [OF reachable_endgame] reachable_endgame shuffled_sample_deck
  by (simp add: endgame_fields stock_exhausted_def sample_game_def)

section \<open>The exchange of the seven\<close>

lemma draw_pair_done: "draw_pair g w = (p, opp, gd) \<Longrightarrow> exchange7_done gd = exchange7_done g"
  by (auto simp: draw_pair_def draw_from_stock_def split: if_splits list.splits)

lemma resolve_trick_done:
  "exchange7_done (resolve_trick g lw lc fw fc) = exchange7_done g"
  by (auto simp: resolve_trick_def Let_def maybe_finish_game_inv split: prod.splits dest: draw_pair_done)

lemma step_done: "step g g' \<Longrightarrow> exchange7_done g \<Longrightarrow> exchange7_done g'"
proof (induction rule: step.induct)
  case (step_lead g who cd flag ann shown)
  then show ?case
    using leader_play_cases [of g who cd flag ann shown]
    by (auto simp: set_hand_inv set_lead_inv dest: apply_announce_cards)
next
  case (step_follow g who cd ann shown)
  then show ?case
    using follower_play_cases [of g who cd ann shown]
    by (auto simp: set_hand_inv resolve_trick_done dest: apply_announce_cards)
next
  case (step_exchange g)
  then show ?case by (simp add: exchange7_def)
next
  case (step_finish g)
  then show ?case by (simp add: maybe_finish_game_inv)
qed

lemma steps_done: "step\<^sup>*\<^sup>* g g' \<Longrightarrow> exchange7_done g \<Longrightarrow> exchange7_done g'"
  by (induction rule: rtranclp_induct) (auto dest: step_done)

lemma exchange7_fails_iff:
  "fst (exchange7 g) \<noteq> None \<longleftrightarrow>
     is_over g \<or> exchange7_done g \<or> talon g = []
     \<or> \<not> list_ex (\<lambda>c. is_seven_of_trump c (trump_suit g)) (player_hand g)"
  using find_seven_None [of "player_hand g" "trump_suit g"]
  by (auto simp: exchange7_def talon_not_empty_def list_ex_iff Let_def split: option.splits)

lemma exchange7_error_unchanged: "fst (exchange7 g) \<noteq> None \<Longrightarrow> snd (exchange7 g) = g"
  by (auto simp: exchange7_def Let_def split: option.splits if_splits)

lemma exchange7_success:
  assumes "fst (exchange7 g) = None"
  shows "\<exists>i<length (player_hand g). player_hand g ! i = Card (trump_suit g) R7 \<and> talon g \<noteq> []
           \<and> snd (exchange7 g) = g\<lparr>player_hand := (player_hand g)[i := trump_card g],
                                    trump_card := Card (trump_suit g) R7,
                                    exchange7_done := True\<rparr>"
proof -
  obtain idx where f: "find_seven (player_hand g) (trump_suit g) = Some idx" and t: "talon g \<noteq> []"
    and e: "snd (exchange7 g) = g\<lparr>player_hand := (player_hand g)[idx := trump_card g],
                                  trump_card := player_hand g ! idx,
                                  exchange7_done := True\<rparr>"
    using assms by (auto simp: exchange7_def Let_def talon_not_empty_def split: option.splits if_splits)
  have "idx < length (player_hand g)" "player_hand g ! idx = Card (trump_suit g) R7"
    using find_seven_Some [OF f] by (auto simp: is_seven_of_trump_def intro: card.expand)
  then show ?thesis using t e by auto
qed

text \<open>
  Claim C6: in a reachable game \<open>exchange7\<close> raises exactly when the game is over, the
  exchange was already done, the stock is exhausted, or the player holds no seven of
  trump, and a raise changes nothing. When it succeeds, the turnup is still reserved, the
  seven in the player's hand is replaced by the turnup card, the seven becomes the
  reserved card, the exchange is marked done, and \<open>exchange7\<close> raises in every game
  reached from there: it succeeds at most once per game.
\<close>

theorem exchange7_spec:
  assumes "reachable g"
  shows "(fst (exchange7 g) \<noteq> None \<longleftrightarrow>
            is_over g \<or> exchange7_done g \<or> stock_exhausted g
            \<or> \<not> list_ex (\<lambda>c. is_seven_of_trump c (trump_suit g)) (player_hand g))
       \<and> (fst (exchange7 g) \<noteq> None \<longrightarrow> snd (exchange7 g) = g)
       \<and> (fst (exchange7 g) = None \<longrightarrow>
            turnup_in_stock g
          \<and> (\<exists>i<length (player_hand g). player_hand g ! i = Card (trump_suit g) R7
               \<and> snd (exchange7 g) = g\<lparr>player_hand := (player_hand g)[i := trump_card g],
                                        trump_card := Card (trump_suit g) R7,
                                        exchange7_done := True\<rparr>)
          \<and> (\<forall>g'. step\<^sup>*\<^sup>* (snd (exchange7 g)) g' \<longrightarrow> fst (exchange7 g') \<noteq> None))"
proof -
  have ex: "stock_exhausted g \<longleftrightarrow> talon g = []"
    using reachable_inv [OF assms] by (auto simp: stock_inv_def stock_exhausted_def)
  have a: "fst (exchange7 g) \<noteq> None \<longleftrightarrow>
            is_over g \<or> exchange7_done g \<or> stock_exhausted g
            \<or> \<not> list_ex (\<lambda>c. is_seven_of_trump c (trump_suit g)) (player_hand g)"
    by (simp only: ex exchange7_fails_iff)
  have b: "fst (exchange7 g) \<noteq> None \<longrightarrow> snd (exchange7 g) = g"
    by (simp add: exchange7_error_unchanged)
  have c: "turnup_in_stock g
          \<and> (\<exists>i<length (player_hand g). player_hand g ! i = Card (trump_suit g) R7
               \<and> snd (exchange7 g) = g\<lparr>player_hand := (player_hand g)[i := trump_card g],
                                        trump_card := Card (trump_suit g) R7,
                                        exchange7_done := True\<rparr>)
          \<and> (\<forall>g'. step\<^sup>*\<^sup>* (snd (exchange7 g)) g' \<longrightarrow> fst (exchange7 g') \<noteq> None)"
    if ok: "fst (exchange7 g) = None"
  proof -
    from exchange7_success [OF ok] obtain i where
      i: "i < length (player_hand g)" "player_hand g ! i = Card (trump_suit g) R7" "talon g \<noteq> []"
         "snd (exchange7 g) = g\<lparr>player_hand := (player_hand g)[i := trump_card g],
                                    trump_card := Card (trump_suit g) R7,
                                    exchange7_done := True\<rparr>"
      by blast
    have tu: "turnup_in_stock g"
      using reachable_inv [OF assms] i(3) by (auto simp: stock_inv_def)
    have d: "exchange7_done (snd (exchange7 g))" using i(4) by simp
    have "fst (exchange7 g') \<noteq> None" if "step\<^sup>*\<^sup>* (snd (exchange7 g)) g'" for g'
      using steps_done [OF that d] exchange7_fails_iff [of g'] by blast
    then show ?thesis using tu i by blast
  qed
  show ?thesis using a b c by blast
qed

lemma sample_exchange:
  "fst (exchange7 sample_game) = None"
  "trump_card (snd (exchange7 sample_game)) = Card C R7"
  "player_hand (snd (exchange7 sample_game)) = [Card S K, Card S R10, Card S A, Card C A, Card C R8]"
  by code_simp+

theorem exchange7_spec_witness:
  "reachable sample_game \<and> fst (exchange7 sample_game) = None
   \<and> trump_card (snd (exchange7 sample_game)) = Card C R7
   \<and> player_hand (snd (exchange7 sample_game)) = [Card S K, Card S R10, Card S A, Card C A, Card C R8]
   \<and> fst (exchange7 (snd (exchange7 sample_game))) \<noteq> None"
  using exchange7_spec [OF reachable_sample_game] reachable_sample_game
  by (simp add: sample_exchange)

section \<open>Scores\<close>

lemma draw_pair_ltw: "draw_pair g w = (p, opp, gd) \<Longrightarrow> last_trick_winner gd = last_trick_winner g"
  by (auto simp: draw_pair_def draw_from_stock_def split: if_splits list.splits)

lemma maybe_finish_game_ltw: "last_trick_winner (maybe_finish_game g) = last_trick_winner g"
  by (simp add: maybe_finish_game_def Let_def)

lemma resolve_trick_ltw:
  "last_trick_winner (resolve_trick g lw lc fw fc) =
     Some (if trick_winner lc fc (trump_suit g) (talon_not_empty g) = 0 then lw else fw)"
  by (auto simp: resolve_trick_def Let_def maybe_finish_game_ltw split: prod.splits dest: draw_pair_ltw)

text \<open>
  Claim C8: the running total of each side is its trick-pile card points plus its
  announce points and does not depend on who won the last trick; the final total is the
  running total plus 10 for the side recorded in \<open>last_trick_winner\<close> and plus 0 for the
  other; \<open>resolve_trick\<close> records there the winner of the trick it resolves.
\<close>

theorem running_score_excludes_bonus:
  "sc_total (rs_player (scores_so_far g)) = compute_cards_points (player_tricks g) + player_ann_points g
   \<and> sc_total (rs_opponent (scores_so_far g)) = compute_cards_points (opponent_tricks g) + opponent_ann_points g
   \<and> scores_so_far (g\<lparr>last_trick_winner := w\<rparr>) = scores_so_far g
   \<and> fs_total (fs_player (final_scores g)) =
       sc_total (rs_player (scores_so_far g)) + (if last_trick_winner g = Some Player then 10 else 0)
   \<and> fs_total (fs_opponent (final_scores g)) =
       sc_total (rs_opponent (scores_so_far g)) + (if last_trick_winner g = Some Opponent then 10 else 0)
   \<and> fs_dix_de_der (fs_player (final_scores g)) = (if last_trick_winner g = Some Player then 10 else 0)
   \<and> fs_dix_de_der (fs_opponent (final_scores g)) = (if last_trick_winner g = Some Opponent then 10 else 0)
   \<and> last_trick_winner (resolve_trick g lw lc fw fc) =
       Some (if trick_winner lc fc (trump_suit g) (talon_not_empty g) = 0 then lw else fw)"
  by (simp add: scores_so_far_def final_scores_def Let_def resolve_trick_ltw)

lemma endgame_last_trick_winner: "last_trick_winner endgame = Some Opponent"
  by code_simp

theorem running_score_excludes_bonus_witness:
  "fs_total (fs_player (final_scores endgame)) = sc_total (rs_player (scores_so_far endgame))
   \<and> fs_total (fs_opponent (final_scores endgame)) = sc_total (rs_opponent (scores_so_far endgame)) + 10"
  using running_score_excludes_bonus [of endgame]
  by (simp add: endgame_last_trick_winner)

section \<open>The chouine announce\<close>

lemma apply_announce_chouine:
  assumes "has_chouine snap s"
    and "announce_key Chouine (Some s) \<notin> (if who = Player then announced_player g else announced_opponent g)"
  shows "apply_announce g who Chouine (Some s) True snap =
           Inr ((if who = Player
                 then g\<lparr>announced_player := insert (announce_key Chouine (Some s)) (announced_player g)\<rparr>
                 else g\<lparr>announced_opponent := insert (announce_key Chouine (Some s)) (announced_opponent g)\<rparr>)
                \<lparr>last_announce := Some \<lparr>ann_by = who, ann_type = Chouine, ann_suit = Some s\<rparr>,
                  is_over := True, winner := Some (winner_of who)\<rparr>)"
  using assms by (auto simp: apply_announce_def validate_announce_def Let_def)

text \<open>
  Claim C9: a shown chouine announce, valid for the hand snapshot (A, 10, K, Q, J of the
  announced suit) and not yet declared by that side, is accepted, ends the game at once
  with the declaring side as winner whatever the hands and the talon hold, and adds no
  announce points.
\<close>

theorem chouine_ends_game:
  assumes "has_chouine snap s"
    and "announce_key Chouine (Some s) \<notin> (if who = Player then announced_player g else announced_opponent g)"
  shows "\<exists>g'. apply_announce g who Chouine (Some s) True snap = Inr g'
            \<and> is_over g' \<and> winner g' = Some (winner_of who)
            \<and> player_ann_points g' = player_ann_points g
            \<and> opponent_ann_points g' = opponent_ann_points g
            \<and> announce_points Chouine (Some s) (trump_suit g) = 0
            \<and> player_hand g' = player_hand g \<and> opponent_hand g' = opponent_hand g
            \<and> talon g' = talon g"
  by (simp add: apply_announce_chouine [OF assms] announce_points_def)

text \<open>In \<open>leader_play\<close> the call returns at once: no card leaves the hand.\<close>

lemma chouine_lead:
  assumes "\<not> is_over g" "current_lead g = None"
    and "\<not> ((leader g = 0 \<and> who \<noteq> Player) \<or> (leader g = 1 \<and> who \<noteq> Opponent))"
    and "\<not> (au_sept_required g \<and> \<not> flag)"
    and "has_chouine (hand_of g who) s"
    and "announce_key Chouine (Some s) \<notin> (if who = Player then announced_player g else announced_opponent g)"
  shows "fst (leader_play g who cd flag \<lparr>a_type = Some Chouine, a_suit = Some s\<rparr> True) = None
       \<and> is_over (snd (leader_play g who cd flag \<lparr>a_type = Some Chouine, a_suit = Some s\<rparr> True))
       \<and> winner (snd (leader_play g who cd flag \<lparr>a_type = Some Chouine, a_suit = Some s\<rparr> True))
           = Some (winner_of who)
       \<and> hand_of (snd (leader_play g who cd flag \<lparr>a_type = Some Chouine, a_suit = Some s\<rparr> True)) who
           = hand_of g who"
proof -
  have a: "apply_announce g who Chouine (Some s) True
             (if who = Player then player_hand g else opponent_hand g) =
           Inr ((if who = Player
                 then g\<lparr>announced_player := insert (announce_key Chouine (Some s)) (announced_player g)\<rparr>
                 else g\<lparr>announced_opponent := insert (announce_key Chouine (Some s)) (announced_opponent g)\<rparr>)
                \<lparr>last_announce := Some \<lparr>ann_by = who, ann_type = Chouine, ann_suit = Some s\<rparr>,
                  is_over := True, winner := Some (winner_of who)\<rparr>)"
    using apply_announce_chouine [OF assms(5,6)] by (simp add: hand_of_def)
  show ?thesis
  proof (cases who)
    case Player
    then show ?thesis
      using assms(1-4) a by (simp add: leader_play_def Let_def announce_type_of_def hand_of_def)
  next
    case Opponent
    then show ?thesis
      using assms(1-4) a by (simp add: leader_play_def Let_def announce_type_of_def hand_of_def)
  qed
qed

lemma unshuffled_chouine:
  "has_chouine (player_hand unshuffled_game) H"
  "announce_key Chouine (Some H) \<notin> announced_player unshuffled_game"
  by code_simp+

theorem chouine_ends_game_witness:
  "has_chouine (player_hand unshuffled_game) H
   \<and> announce_key Chouine (Some H) \<notin> announced_player unshuffled_game
   \<and> (\<exists>g'. apply_announce unshuffled_game Player Chouine (Some H) True (player_hand unshuffled_game) = Inr g'
          \<and> is_over g' \<and> winner g' = Some WPlayer \<and> player_ann_points g' = player_ann_points unshuffled_game)"
  using chouine_ends_game [of "player_hand unshuffled_game" H Player unshuffled_game] unshuffled_chouine
  by (auto simp: winner_of_def)

section \<open>Failed actions\<close>

lemma reachable_unshuffled_game: "reachable unshuffled_game"
  unfolding unshuffled_game_def by (rule reach_new) (simp add: shuffled_def)

text \<open>
  What an action leaves behind when it raises: \<open>exchange7\<close> leaves the game as it was
  (\<open>exchange7_error_unchanged\<close>); \<open>leader_play\<close> leaves it as it was unless the error is
  "Card not in hand", and then the game is the one \<open>apply_announce\<close> has committed.
\<close>

lemma leader_play_error_cases:
  assumes "fst (leader_play g who cd flag ann shown) = Some e"
  shows "snd (leader_play g who cd flag ann shown) = g
       \<or> (e = CardNotInHand \<and> cd \<notin> set (hand_of g who)
          \<and> apply_announce g who (announce_type_of ann) (a_suit ann) shown (hand_of g who)
              = Inr (snd (leader_play g who cd flag ann shown)))"
proof (cases "is_over g \<or> current_lead g \<noteq> None
              \<or> (leader g = 0 \<and> who \<noteq> Player) \<or> (leader g = 1 \<and> who \<noteq> Opponent)
              \<or> (au_sept_required g \<and> \<not> flag)")
  case True
  then have "snd (leader_play g who cd flag ann shown) = g"
    unfolding leader_play_def by (simp only: if_True if_False snd_conv split: if_split) blast
  then show ?thesis by simp
next
  case ok: False
  show ?thesis
  proof (cases "apply_announce g who (announce_type_of ann) (a_suit ann) shown (hand_of g who)")
    case (Inl e')
    then have "snd (leader_play g who cd flag ann shown) = g"
      using ok by (auto simp: leader_play_def hand_of_def Let_def)
    then show ?thesis by simp
  next
    case (Inr g1)
    have hg: "hand_of g1 who = hand_of g who"
      using apply_announce_cards [OF Inr] by (simp add: hand_of_def)
    show ?thesis
    proof (cases "is_over g1")
      case True
      then have "fst (leader_play g who cd flag ann shown) = None"
        using ok Inr by (auto simp: leader_play_def hand_of_def Let_def)
      then show ?thesis using assms by simp
    next
      case False
      show ?thesis
      proof (cases "remove_card (hand_of g1 who) cd")
        case (Inl e')
        then have "leader_play g who cd flag ann shown = (Some e', g1)"
          using ok Inr False by (auto simp: leader_play_def hand_of_def Let_def)
        then show ?thesis using assms Inr remove_card_error [OF Inl] hg by simp
      next
        case h: (Inr h)
        then have "fst (leader_play g who cd flag ann shown) = None"
          using ok Inr False by (auto simp: leader_play_def hand_of_def Let_def)
        then show ?thesis using assms by simp
      qed
    qed
  qed
qed

lemma failed_lead_fields:
  "fst (leader_play unshuffled_game Player (Card S R7) False mariage_H True) = Some CardNotInHand"
  "player_ann_points (snd (leader_play unshuffled_game Player (Card S R7) False mariage_H True)) = 20"
  "''mariage:H'' \<in> announced_player (snd (leader_play unshuffled_game Player (Card S R7) False mariage_H True))"
  "last_announce (snd (leader_play unshuffled_game Player (Card S R7) False mariage_H True))
     = Some \<lparr>ann_by = Player, ann_type = Mariage, ann_suit = Some H\<rparr>"
  "player_ann_points unshuffled_game = 0"
  "announced_player unshuffled_game = {}"
  "last_announce unshuffled_game = None"
  by code_simp+

lemma failed_follow_fields:
  "fst (follower_play first_lead Opponent (Card H A) mariage_C True) = Some CardNotInHand"
  "opponent_ann_points (snd (follower_play first_lead Opponent (Card H A) mariage_C True)) = 40"
  "opponent_ann_points first_lead = 0"
  by code_simp+

lemma reachable_first_lead: "reachable first_lead"
  unfolding first_lead_def by (rule reachable_run [OF reachable_sample_game])

text \<open>
  Claim C2 (all-or-nothing): the code does not do this. In the game dealt from the
  unshuffled deck the player leads (S,7), a card the hand does not hold, with a shown
  mariage of hearts: \<open>leader_play\<close> raises "Card not in hand", and the game after the call
  has 20 announce points, the key "mariage:H" and the last-announce record that the game
  before it did not have. \<open>follower_play\<close> does the same: in the sample game, after the
  player's first lead, the opponent's follow of the absent (H,A) with a mariage of clubs
  raises and leaves 40 announce points.
\<close>

theorem failed_lead_keeps_announce:
  "reachable unshuffled_game
   \<and> fst (leader_play unshuffled_game Player (Card S R7) False mariage_H True) = Some CardNotInHand
   \<and> snd (leader_play unshuffled_game Player (Card S R7) False mariage_H True) \<noteq> unshuffled_game
   \<and> player_ann_points unshuffled_game = 0
   \<and> player_ann_points (snd (leader_play unshuffled_game Player (Card S R7) False mariage_H True)) = 20
   \<and> announced_player unshuffled_game = {}
   \<and> ''mariage:H'' \<in> announced_player (snd (leader_play unshuffled_game Player (Card S R7) False mariage_H True))
   \<and> last_announce unshuffled_game = None
   \<and> last_announce (snd (leader_play unshuffled_game Player (Card S R7) False mariage_H True))
       = Some \<lparr>ann_by = Player, ann_type = Mariage, ann_suit = Some H\<rparr>
   \<and> reachable first_lead
   \<and> fst (follower_play first_lead Opponent (Card H A) mariage_C True) = Some CardNotInHand
   \<and> opponent_ann_points first_lead = 0
   \<and> opponent_ann_points (snd (follower_play first_lead Opponent (Card H A) mariage_C True)) = 40"
proof -
  have "snd (leader_play unshuffled_game Player (Card S R7) False mariage_H True) \<noteq> unshuffled_game"
    using failed_lead_fields(2,5) by auto
  then show ?thesis
    using reachable_unshuffled_game failed_lead_fields reachable_first_lead failed_follow_fields
    by simp
qed

section \<open>The last return of the trick winner\<close>

text \<open>
  Claim C3, amended: with the stock exhausted and the follower's card taken from the
  legal-move set, the final different-suits return of \<open>trick_winner\<close> is reached exactly
  when the lead is not trump and the follower's hand holds neither the lead suit nor a
  trump (the forced discard); the leader then wins the trick.
\<close>

theorem fallback_iff_forced_discard:
  assumes "c \<in> set (compute_legal_moves hand (Some lead) t False)"
  shows "(trick_winner_branch lead c t False = Fallback \<longleftrightarrow>
            \<not> has_suit hand (suit lead) \<and> trumps hand t = [] \<and> suit lead \<noteq> t)
       \<and> (trick_winner_branch lead c t False = Fallback \<longrightarrow> trick_winner lead c t False = 0)"
  using assms
  by (auto simp: overtrump_branch_dead trick_winner_branch_def trick_winner_def Let_def
        has_suit_iff trumps_def filter_empty_conv split: if_splits)

theorem fallback_iff_forced_discard_witness:
  "Card S R9 \<in> set (compute_legal_moves [Card S R10, Card S A, Card S R9, Card S Q] (Some (Card H R7)) C False)
   \<and> trick_winner_branch (Card H R7) (Card S R9) C False = Fallback
   \<and> \<not> has_suit [Card S R10, Card S A, Card S R9, Card S Q] H
   \<and> trumps [Card S R10, Card S A, Card S R9, Card S Q] C = []
   \<and> trick_winner (Card H R7) (Card S R9) C False = 0"
proof -
  have m: "Card S R9 \<in> set (compute_legal_moves [Card S R10, Card S A, Card S R9, Card S Q] (Some (Card H R7)) C False)"
    by (simp add: compute_legal_moves_def has_suit_def trumps_def Let_def)
  have b: "trick_winner_branch (Card H R7) (Card S R9) C False = Fallback"
    by (simp add: trick_winner_branch_def Let_def)
  show ?thesis
    using fallback_iff_forced_discard [OF m] m b by simp
qed

lemma endgame_follow:
  "fst (follower_play endgame Player (Card S R9) no_announce False) = None"
  "talon_not_empty endgame = False"
  "stock_exhausted endgame"
  "Card S R9 \<in> set (compute_legal_moves (player_hand endgame) (current_lead endgame)
                         (trump_suit endgame) (talon_not_empty endgame))"
  "trick_winner_branch (Card H R7) (Card S R9) (trump_suit endgame) (talon_not_empty endgame) = Fallback"
  by code_simp+

text \<open>
  Claim C3 as stated fails: in the sample game the stock is exhausted, the opponent leads
  (H,7), the player holds spades only, the discard of (S,9) is legal and accepted, and
  \<open>trick_winner\<close> leaves through its final return.
\<close>

theorem fallback_reached_by_legal_discard:
  "reachable endgame \<and> stock_exhausted endgame
   \<and> current_lead endgame = Some (Card H R7) \<and> current_lead_by endgame = Some Opponent
   \<and> Card S R9 \<in> set (compute_legal_moves (player_hand endgame) (current_lead endgame)
                         (trump_suit endgame) (talon_not_empty endgame))
   \<and> fst (follower_play endgame Player (Card S R9) no_announce False) = None
   \<and> trick_winner_branch (Card H R7) (Card S R9) (trump_suit endgame) (talon_not_empty endgame) = Fallback"
  using reachable_endgame endgame_follow endgame_fields(4,5) by blast

end
